theory Spec2Isabelle
  imports Main
begin

section \<open>JavaScript values and the object heap\<close>

text \<open>
  The class \<open>LazyLinkfield\<close> works on JavaScript values. Objects are mutable and shared
  (an override writes into the cloned child, or into a node found through the child), so
  they live in a heap and a value refers to them by address. An object is the map of
  its own data properties: a key bound to \<open>JUndefined\<close> is an own property, an unbound
  key is none. A string has the own properties \<open>length\<close> and one per character.
  Members inherited from a prototype are outside this model, numbers are integers and
  strings are ASCII.
\<close>

type_synonym addr = nat

datatype jsval =
    JUndefined
  | JNull
  | JBool bool
  | JNum int
  | JStr string
  | JRef addr

type_synonym obj = "string \<rightharpoonup> jsval"

record heap =
  cells :: "addr \<Rightarrow> obj"
  nextAddr :: addr

datatype error = TypeError

text \<open>The conversion to boolean that \<open>if (x)\<close>, \<open>!x\<close> and \<open>x || y\<close> apply.\<close>

fun truthy :: "jsval \<Rightarrow> bool" where
  "truthy JUndefined = False"
| "truthy JNull = False"
| "truthy (JBool b) = b"
| "truthy (JNum n) = (n \<noteq> 0)"
| "truthy (JStr s) = (s \<noteq> [])"
| "truthy (JRef a) = True"

text \<open>
  An array index is the decimal numeral, without sign or leading zero, of an integer
  from 0 to \<open>2\<^sup>3\<^sup>2 - 2\<close>.
\<close>

definition is_digit :: "char \<Rightarrow> bool" where
  "is_digit ch = (ch \<in> set ''0123456789'')"

definition decimal :: "string \<Rightarrow> nat" where
  "decimal k = foldl (\<lambda>n ch. 10 * n + (of_char ch - 48)) 0 k"

definition array_index :: "string \<Rightarrow> nat option" where
  "array_index k =
     (if k \<noteq> [] \<and> list_all is_digit k \<and> (k = ''0'' \<or> hd k \<noteq> CHR ''0'')
         \<and> decimal k \<le> 4294967294
      then Some (decimal k) else None)"

text \<open>The own properties of a string primitive: \<open>length\<close> and its characters.\<close>

definition stringProp :: "string \<Rightarrow> string \<Rightarrow> jsval option" where
  "stringProp str k =
     (if k = ''length'' then Some (JNum (int (length str)))
      else (case array_index k of
              None \<Rightarrow> None
            | Some i \<Rightarrow> if i < length str then Some (JStr [str ! i]) else None))"

text \<open>
  \<open>object[key]\<close>: reading a property of \<open>undefined\<close> or \<open>null\<close> throws a TypeError,
  an absent property reads as \<open>undefined\<close>.
\<close>

fun getProp :: "heap \<Rightarrow> jsval \<Rightarrow> string \<Rightarrow> error + jsval" where
  "getProp h JUndefined k = Inl TypeError"
| "getProp h JNull k = Inl TypeError"
| "getProp h (JRef a) k = Inr (case cells h a k of None \<Rightarrow> JUndefined | Some v \<Rightarrow> v)"
| "getProp h (JStr str) k =
     Inr (case stringProp str k of None \<Rightarrow> JUndefined | Some v \<Rightarrow> v)"
| "getProp h v k = Inr JUndefined"

text \<open>
  \<open>target[key] = value\<close>. The source is module code, hence strict: writing a property
  of a primitive throws, as writing one of \<open>undefined\<close> or \<open>null\<close> does.
\<close>

fun setProp :: "heap \<Rightarrow> jsval \<Rightarrow> string \<Rightarrow> jsval \<Rightarrow> error + heap" where
  "setProp h (JRef a) k v = Inr (h\<lparr>cells := (cells h)(a := (cells h a)(k \<mapsto> v))\<rparr>)"
| "setProp h t k v = Inl TypeError"

text \<open>
  \<open>delete target[key]\<close>: removes an own property of an object, throws on \<open>undefined\<close>
  and \<open>null\<close>, and in strict code throws on an own property of a string, which cannot
  be removed. On a property that a boolean, number or string does not have it does
  nothing.
\<close>

fun deleteProp :: "heap \<Rightarrow> jsval \<Rightarrow> string \<Rightarrow> error + heap" where
  "deleteProp h JUndefined k = Inl TypeError"
| "deleteProp h JNull k = Inl TypeError"
| "deleteProp h (JRef a) k = Inr (h\<lparr>cells := (cells h)(a := (cells h a)(k := None))\<rparr>)"
| "deleteProp h (JStr str) k = (if stringProp str k = None then Inr h else Inl TypeError)"
| "deleteProp h v k = Inr h"

text \<open>\<open>value.hasOwnProperty(key)\<close>.\<close>

fun hasOwnProperty :: "heap \<Rightarrow> jsval \<Rightarrow> string \<Rightarrow> error + bool" where
  "hasOwnProperty h JUndefined k = Inl TypeError"
| "hasOwnProperty h JNull k = Inl TypeError"
| "hasOwnProperty h (JRef a) k = Inr (cells h a k \<noteq> None)"
| "hasOwnProperty h (JStr str) k = Inr (stringProp str k \<noteq> None)"
| "hasOwnProperty h v k = Inr False"

text \<open>An object literal: a new object at the next free address.\<close>

definition alloc :: "heap \<Rightarrow> obj \<Rightarrow> addr \<times> heap" where
  "alloc h ob =
     (nextAddr h, h\<lparr>cells := (cells h)(nextAddr h := ob), nextAddr := Suc (nextAddr h)\<rparr>)"

section \<open>Arrays and strings\<close>

text \<open>
  \<open>xs.splice(start)\<close> with one argument removes everything from \<open>start\<close> on (counted
  from the end when negative) and returns the removed elements. The first component is
  the array as it is left behind, the second the array returned.
\<close>

definition splice :: "int \<Rightarrow> 'a list \<Rightarrow> 'a list \<times> 'a list" where
  "splice start xs =
     (let len = int (length xs);
          from = (if start < 0 then max (len + start) 0 else min start len)
      in (take (nat from) xs, drop (nat from) xs))"

text \<open>\<open>xs[i]\<close> on an array: \<open>None\<close> stands for the \<open>undefined\<close> read out of range.\<close>

definition index :: "'a list \<Rightarrow> nat \<Rightarrow> 'a option" where
  "index xs i = (if i < length xs then Some (xs ! i) else None)"

text \<open>
  A property key is converted to a string: an \<open>undefined\<close> key addresses the property
  named \<open>undefined\<close>.
\<close>

definition key_of :: "string option \<Rightarrow> string" where
  "key_of k = (case k of None \<Rightarrow> ''undefined'' | Some name \<Rightarrow> name)"

text \<open>\<open>s.split(sep)\<close> for a separator of one character; the result is never empty.\<close>

fun split_on :: "char \<Rightarrow> string \<Rightarrow> string list" where
  "split_on sep [] = ['''']"
| "split_on sep (c # cs) =
     (if c = sep then [] # split_on sep cs
      else (case split_on sep cs of
              [] \<Rightarrow> [c # '''']
            | w # ws \<Rightarrow> (c # w) # ws))"

text \<open>\<open>s.includes(c)\<close> for a single character.\<close>

definition includes_chr :: "string \<Rightarrow> char \<Rightarrow> bool" where
  "includes_chr s c = (c \<in> set s)"

text \<open>
  \<open>Object.entries(o)\<close> lists the own properties of \<open>o\<close> with the keys that are array
  indices first, in ascending numeric order, and the other keys after them in the order
  of their insertion.
\<close>

definition index_rank :: "string \<Rightarrow> nat" where
  "index_rank k = (case array_index k of None \<Rightarrow> 0 | Some n \<Rightarrow> n)"

definition object_entries :: "(string \<times> 'a) list \<Rightarrow> (string \<times> 'a) list" where
  "object_entries ps =
     sort_key (\<lambda>p. index_rank (fst p)) (filter (\<lambda>p. array_index (fst p) \<noteq> None) ps)
     @ filter (\<lambda>p. array_index (fst p) = None) ps"

text \<open>
  The destructuring \<open>[elementPath, fieldPath] = field.split(';')\<close> of line 68 binds the
  first two pieces only: what follows a second \<open>;\<close> is not read. \<open>destructured\<close> is
  the part of a key that is read.
\<close>

definition destructured :: "string \<Rightarrow> string" where
  "destructured field =
     (case dropWhile (\<lambda>ch. ch \<noteq> CHR '';'') field of
        [] \<Rightarrow> field
      | sep # rest \<Rightarrow>
          takeWhile (\<lambda>ch. ch \<noteq> CHR '';'') field
          @ sep # takeWhile (\<lambda>ch. ch \<noteq> CHR '';'') rest)"

section \<open>Path resolution in raw objects\<close>

text \<open>
  \<open>resolveRawPath(object, path)\<close>, lines 93 to 100. The arguments of the recursive call
  are evaluated from left to right, so \<open>object[path[0]]\<close> is read before \<open>path.splice(1)\<close>
  shortens the array; the call receives the removed tail. The caller's array is left
  with its first element only, which no caller in this class reads again.
\<close>

function resolveRawPath :: "heap \<Rightarrow> jsval \<Rightarrow> string list \<Rightarrow> error + jsval" where
  "resolveRawPath h object path =
     (if length path = 0 then Inr object
      else if index path 0 = Some ''#'' then resolveRawPath h object (snd (splice 1 path))
      else (case getProp h object (key_of (index path 0)) of
              Inl e \<Rightarrow> Inl e
            | Inr v \<Rightarrow> resolveRawPath h v (snd (splice 1 path))))"
  by pat_completeness auto
termination
  by (relation "measure (\<lambda>(h, object, path). length path)") (auto simp: splice_def Let_def)

declare resolveRawPath.simps [simp del]

text \<open>
  The reference resolution, from the words of the specification: step through the
  segments from the left, staying on the same object at a \<open>#\<close> marker and moving to
  \<open>object[segment]\<close> otherwise. A step into \<open>undefined\<close> or \<open>null\<close> fails, and the
  failure is the result.
\<close>

definition rawStep :: "heap \<Rightarrow> error + jsval \<Rightarrow> string \<Rightarrow> error + jsval" where
  "rawStep h acc seg =
     (case acc of
        Inl e \<Rightarrow> Inl e
      | Inr object \<Rightarrow> if seg = ''#'' then Inr object else getProp h object seg)"

definition resolveRawPath_spec :: "heap \<Rightarrow> jsval \<Rightarrow> string list \<Rightarrow> error + jsval" where
  "resolveRawPath_spec h object path = foldl (rawStep h) (Inr object) path"

section \<open>The Field base class\<close>

text \<open>
  \<open>LazyLinkfield\<close> extends \<open>Field\<close> (\<open>./abstract/field\<close>) and its child is a \<open>Field\<close>;
  that class is not among the sources. Its operations are parameters of the model,
  collected in one record: the inherited methods the class calls on itself, and the
  methods it calls on its child, which take the child's address. Each reads the heap;
  those called for their effect return the heap they leave, and those that build an
  object return its address. \<open>resolveRef\<close> and \<open>resolvePath\<close> return a node or \<open>undefined\<close>.
  None of them throws, changes an array it is given, or reaches the fields of the lazy
  link itself. The result of \<open>super.shouldDisplay()\<close> is an input of \<open>shouldDisplay\<close>
  below.
\<close>

record init_args =
  arg_target :: "string option"
  arg_overrides :: "(string \<times> jsval) list option"

record field_base =
  super_init :: "heap \<Rightarrow> string \<Rightarrow> init_args \<Rightarrow> jsval \<times> heap"
  super_revalidate :: "heap \<Rightarrow> jsval \<Rightarrow> addr \<times> heap"
  super_resolvePath :: "heap \<Rightarrow> string list \<Rightarrow> jsval"
  this_resolveRef :: "heap \<Rightarrow> string \<Rightarrow> jsval"
  onSetValue :: "heap \<Rightarrow> jsval \<Rightarrow> heap"
  clone :: "heap \<Rightarrow> addr \<Rightarrow> addr \<times> heap"
  fld_resolveRef :: "heap \<Rightarrow> addr \<Rightarrow> string \<Rightarrow> jsval"
  fld_getValue :: "heap \<Rightarrow> addr \<Rightarrow> jsval"
  fld_setValue :: "heap \<Rightarrow> addr \<Rightarrow> jsval \<Rightarrow> heap"
  fld_isEmpty :: "heap \<Rightarrow> addr \<Rightarrow> bool"
  fld_revalidate :: "heap \<Rightarrow> addr \<Rightarrow> jsval \<Rightarrow> addr \<times> heap"
  fld_resolvePath :: "heap \<Rightarrow> addr \<Rightarrow> string list \<Rightarrow> jsval"

section \<open>The lazy link field\<close>

text \<open>
  The fields of the class (lines 11 to 14), the two properties of the parent that
  \<open>shouldDisplay\<close> reads, and the heap of all other objects. \<open>overrides\<close> is the
  mapping as the list of its entries in the order of insertion; \<open>object_entries\<close>
  gives the order in which the loop of \<open>createChild\<close> meets them. \<open>child\<close> is \<open>None\<close>
  for \<open>undefined\<close>.
\<close>

record parent_field =
  isCollapsible :: bool
  collapsed :: bool

record lazylink =
  target :: string
  overrides :: "(string \<times> jsval) list"
  child :: "addr option"
  cachedValue :: jsval
  parent :: "parent_field option"
  world :: heap

text \<open>The field initialisers of a new instance.\<close>

definition new_LazyLinkfield :: "parent_field option \<Rightarrow> heap \<Rightarrow> lazylink" where
  "new_LazyLinkfield p h =
     \<lparr>target = ''#'', overrides = [], child = None, cachedValue = JUndefined,
      parent = p, world = h\<rparr>"

text \<open>
  \<open>init(id = '', args = {})\<close>, lines 17 to 21. An argument that is \<open>None\<close> was not passed.
  \<open>args.target || '#'\<close> replaces a missing and an empty target.
\<close>

definition init ::
  "field_base \<Rightarrow> string option \<Rightarrow> init_args option \<Rightarrow> lazylink \<Rightarrow> jsval \<times> lazylink" where
  "init B id_arg args_arg s =
     (let ident = (case id_arg of None \<Rightarrow> [] | Some i \<Rightarrow> i);
          args = (case args_arg of
                    None \<Rightarrow> \<lparr>arg_target = None, arg_overrides = None\<rparr>
                  | Some a \<Rightarrow> a);
          s1 = s\<lparr>target := (case arg_target args of
                               None \<Rightarrow> ''#''
                             | Some t \<Rightarrow> if t = [] then ''#'' else t)\<rparr>;
          s2 = s1\<lparr>overrides := (case arg_overrides args of None \<Rightarrow> [] | Some ov \<Rightarrow> ov)\<rparr>;
          (r, h) = super_init B (world s2) ident args
      in (r, s2\<lparr>world := h\<rparr>))"

text \<open>\<open>isEmpty()\<close>, lines 35 to 40.\<close>

definition isEmpty :: "field_base \<Rightarrow> lazylink \<Rightarrow> bool" where
  "isEmpty B s =
     (case child s of
        None \<Rightarrow> \<not> truthy (cachedValue s)
      | Some c \<Rightarrow> fld_isEmpty B (world s) c)"

text \<open>
  \<open>revalidate(errorCollection)\<close>, lines 43 to 54. \<open>childrenValid_of\<close> is the conditional
  expression of lines 50 to 52, which reads \<open>validation.child\<close> back from the object.
\<close>

definition childrenValid_of :: "heap \<Rightarrow> jsval \<Rightarrow> error + jsval" where
  "childrenValid_of h validation =
     (case getProp h validation ''child'' of
        Inl e \<Rightarrow> Inl e
      | Inr vchild \<Rightarrow>
          (case hasOwnProperty h vchild ''childrenValid'' of
             Inl e \<Rightarrow> Inl e
           | Inr own \<Rightarrow>
               if own then getProp h vchild ''childrenValid''
               else getProp h vchild ''valid''))"

definition revalidate ::
  "field_base \<Rightarrow> jsval \<Rightarrow> lazylink \<Rightarrow> (error + jsval) \<times> lazylink" where
  "revalidate B errorCollection s =
     (let (validation, h1) = super_revalidate B (world s) errorCollection;
          (childResult, h2) =
            (case child s of
               Some c \<Rightarrow> fld_revalidate B h1 c errorCollection
             | None \<Rightarrow> alloc h1 [''valid'' \<mapsto> JBool True])
      in case setProp h2 (JRef validation) ''child'' (JRef childResult) of
           Inl e \<Rightarrow> (Inl e, s\<lparr>world := h2\<rparr>)
         | Inr h3 \<Rightarrow>
             (case childrenValid_of h3 (JRef validation) of
                Inl e \<Rightarrow> (Inl e, s\<lparr>world := h3\<rparr>)
              | Inr cv \<Rightarrow>
                  (case setProp h3 (JRef validation) ''childrenValid'' cv of
                     Inl e \<Rightarrow> (Inl e, s\<lparr>world := h3\<rparr>)
                   | Inr h4 \<Rightarrow> (Inr (JRef validation), s\<lparr>world := h4\<rparr>))))"

text \<open>
  The body of the loop of \<open>createChild\<close>, lines 64 to 81, for one entry of the
  overrides and the child \<open>c\<close>. Every failure comes before the one write, so a failed
  entry leaves the heap as it found it.
\<close>

definition applyOverride ::
  "field_base \<Rightarrow> addr \<Rightarrow> heap \<Rightarrow> string \<times> jsval \<Rightarrow> error + heap" where
  "applyOverride B c h entry =
     (let (field, value) = entry in
      case (if includes_chr field CHR '';''
            then (let parts = split_on CHR '';'' field;
                      elementPath = index parts 0;
                      fieldPath = index parts 1
                  in case fieldPath of
                       None \<Rightarrow> Inl TypeError
                     | Some fp \<Rightarrow>
                         Inr (fld_resolveRef B h c (key_of elementPath), split_on CHR ''/'' fp))
            else Inr (JRef c, split_on CHR ''/'' field)) of
        Inl e \<Rightarrow> Inl e
      | Inr (root, fieldPath0) \<Rightarrow>
          (let (fieldPath, removed) = splice (- 1) fieldPath0;
               lastFieldPathEntry = key_of (index removed 0)
           in case resolveRawPath h root fieldPath of
                Inl e \<Rightarrow> Inl e
              | Inr container \<Rightarrow>
                  if value = JNull then deleteProp h container lastFieldPathEntry
                  else setProp h container lastFieldPathEntry value))"

text \<open>The loop over the entries: it stops at the first entry that throws.\<close>

fun applyOverrides ::
  "field_base \<Rightarrow> addr \<Rightarrow> heap \<Rightarrow> (string \<times> jsval) list \<Rightarrow> (error + unit) \<times> heap" where
  "applyOverrides B c h [] = (Inr (), h)"
| "applyOverrides B c h (entry # entries) =
     (case applyOverride B c h entry of
        Inl e \<Rightarrow> (Inl e, h)
      | Inr h' \<Rightarrow> applyOverrides B c h' entries)"

text \<open>
  \<open>createChild()\<close>, lines 61 to 88. Calling \<open>clone\<close> on anything but a field throws
  before \<open>child\<close> is assigned; a throw in the loop leaves \<open>child\<close> assigned and the
  cached value where it was.
\<close>

definition createChild :: "field_base \<Rightarrow> lazylink \<Rightarrow> (error + unit) \<times> lazylink" where
  "createChild B s =
     (case this_resolveRef B (world s) (target s) of
        JRef t \<Rightarrow>
          (let (c, h1) = clone B (world s) t;
               s1 = s\<lparr>child := Some c, world := h1\<rparr>
           in case applyOverrides B c h1 (object_entries (overrides s1)) of
                (Inl e, h2) \<Rightarrow> (Inl e, s1\<lparr>world := h2\<rparr>)
              | (Inr u, h2) \<Rightarrow>
                  (let s2 = s1\<lparr>world := h2\<rparr>
                   in if truthy (cachedValue s2)
                      then (Inr (), s2\<lparr>world := fld_setValue B h2 c (cachedValue s2),
                                       cachedValue := JUndefined\<rparr>)
                      else (Inr (), s2)))
      | _ \<Rightarrow> (Inl TypeError, s))"

text \<open>\<open>deleteChild()\<close>, lines 105 to 107.\<close>

definition deleteChild :: "lazylink \<Rightarrow> lazylink" where
  "deleteChild s = s\<lparr>child := None\<rparr>"

text \<open>
  \<open>shouldDisplay()\<close>, lines 110 to 128; \<open>display\<close> is what \<open>super.shouldDisplay()\<close>
  returned.
\<close>

definition isParentCollapsed :: "lazylink \<Rightarrow> bool" where
  "isParentCollapsed s =
     (case parent s of None \<Rightarrow> False | Some p \<Rightarrow> isCollapsible p \<and> collapsed p)"

definition shouldDisplay ::
  "field_base \<Rightarrow> bool \<Rightarrow> lazylink \<Rightarrow> (error + bool) \<times> lazylink" where
  "shouldDisplay B display s =
     (if display then
        (if child s = None \<and> \<not> isParentCollapsed s
         then (case createChild B s of
                 (Inl e, s') \<Rightarrow> (Inl e, s')
               | (Inr u, s') \<Rightarrow> (Inr display, s'))
         else (Inr display, s))
      else (case child s of
              Some c \<Rightarrow>
                (Inr display, deleteChild (s\<lparr>cachedValue := fld_getValue B (world s) c\<rparr>))
            | None \<Rightarrow> (Inr display, s)))"

text \<open>\<open>setValue(value)\<close>, lines 136 to 146.\<close>

definition setValue :: "field_base \<Rightarrow> jsval \<Rightarrow> lazylink \<Rightarrow> lazylink" where
  "setValue B v s =
     (let s1 = s\<lparr>world := onSetValue B (world s) v\<rparr>
      in case child s1 of
           None \<Rightarrow> s1\<lparr>cachedValue := v\<rparr>
         | Some c \<Rightarrow> s1\<lparr>world := fld_setValue B (world s1) c v\<rparr>)"

text \<open>\<open>getValue()\<close>, lines 156 to 161.\<close>

definition getValue :: "field_base \<Rightarrow> lazylink \<Rightarrow> jsval" where
  "getValue B s =
     (case child s of
        Some c \<Rightarrow> fld_getValue B (world s) c
      | None \<Rightarrow> cachedValue s)"

text \<open>
  \<open>resolvePath(path)\<close>, lines 163 to 175. The child receives the tail that
  \<open>path.splice(1)\<close> returns.
\<close>

definition resolvePath :: "field_base \<Rightarrow> string list \<Rightarrow> lazylink \<Rightarrow> jsval" where
  "resolvePath B path s =
     (let parentResolveResult = super_resolvePath B (world s) path
      in if truthy parentResolveResult then parentResolveResult
         else (case child s of
                 Some c \<Rightarrow>
                   if index path 0 = Some '':child''
                   then fld_resolvePath B (world s) c (snd (splice 1 path))
                   else JUndefined
               | None \<Rightarrow> JUndefined))"

section \<open>Override application in the words of the specification\<close>

text \<open>
  A key with a separator \<open>;\<close> names an element, the text before the first separator,
  and a field path, the remainder after that separator; a key without one is a field
  path. The root is the node that the child's \<open>resolveRef\<close> finds for the element, or
  the child itself. The last segment of the field path is
  the terminal property, the segments before it lead from the root to the container,
  and the property is deleted from the container when the value is \<open>null\<close> and set
  to the value otherwise.
\<close>

definition elementPath_spec :: "string \<Rightarrow> string" where
  "elementPath_spec field = takeWhile (\<lambda>ch. ch \<noteq> CHR '';'') field"

definition fieldPath_spec :: "string \<Rightarrow> string" where
  "fieldPath_spec field =
     (if CHR '';'' \<in> set field
      then drop 1 (dropWhile (\<lambda>ch. ch \<noteq> CHR '';'') field)
      else field)"

definition overrideRoot_spec :: "field_base \<Rightarrow> addr \<Rightarrow> heap \<Rightarrow> string \<Rightarrow> jsval" where
  "overrideRoot_spec B c h field =
     (if CHR '';'' \<in> set field then fld_resolveRef B h c (elementPath_spec field)
      else JRef c)"

definition applyOverride_spec ::
  "field_base \<Rightarrow> addr \<Rightarrow> heap \<Rightarrow> string \<times> jsval \<Rightarrow> error + heap" where
  "applyOverride_spec B c h entry =
     (let segments = split_on CHR ''/'' (fieldPath_spec (fst entry));
          terminal = last segments
      in case resolveRawPath_spec h (overrideRoot_spec B c h (fst entry)) (butlast segments) of
           Inl e \<Rightarrow> Inl e
         | Inr container \<Rightarrow>
             if snd entry = JNull then deleteProp h container terminal
             else setProp h container terminal (snd entry))"

fun applyOverrides_spec ::
  "field_base \<Rightarrow> addr \<Rightarrow> heap \<Rightarrow> (string \<times> jsval) list \<Rightarrow> (error + unit) \<times> heap" where
  "applyOverrides_spec B c h [] = (Inr (), h)"
| "applyOverrides_spec B c h (entry # entries) =
     (case applyOverride_spec B c h entry of
        Inl e \<Rightarrow> (Inl e, h)
      | Inr h' \<Rightarrow> applyOverrides_spec B c h' entries)"

section \<open>A concrete field tree\<close>

text \<open>
  An instance of the parameters, small enough to evaluate the class on: a field keeps
  its value in the property \<open>value\<close>, \<open>clone\<close> copies the own properties of the
  template to a new object, \<open>resolveRef\<close> on a field follows one property that holds
  a reference, and the one resolvable target is \<open>#/template\<close> at address 0. The
  template has the nested property \<open>a.b.c = 1\<close> and a node \<open>sub\<close> with \<open>x.y = 0\<close>.
\<close>

definition demoHeap :: heap where
  "demoHeap =
     \<lparr>cells = (\<lambda>a. Map.empty)
        (0 := [''value'' \<mapsto> JStr ''default'', ''a'' \<mapsto> JRef 1, ''sub'' \<mapsto> JRef 3],
         1 := [''b'' \<mapsto> JRef 2],
         2 := [''c'' \<mapsto> JNum 1],
         3 := [''x'' \<mapsto> JRef 4],
         4 := [''y'' \<mapsto> JNum 0]),
      nextAddr = 5\<rparr>"

definition demoBase :: field_base where
  "demoBase =
     \<lparr>super_init = (\<lambda>h ident args. (JUndefined, h)),
      super_revalidate = (\<lambda>h ec. alloc h [''valid'' \<mapsto> JBool True]),
      super_resolvePath = (\<lambda>h path. if path = [''..''] then JRef 0 else JUndefined),
      this_resolveRef = (\<lambda>h path. if path = ''#/template'' then JRef 0 else JUndefined),
      onSetValue = (\<lambda>h v. h),
      clone = (\<lambda>h t. alloc h (cells h t)),
      fld_resolveRef = (\<lambda>h a path. case cells h a path of
                                       Some (JRef n) \<Rightarrow> JRef n
                                     | _ \<Rightarrow> JUndefined),
      fld_getValue = (\<lambda>h a. case cells h a ''value'' of None \<Rightarrow> JUndefined | Some v \<Rightarrow> v),
      fld_setValue = (\<lambda>h a v. h\<lparr>cells := (cells h)(a := (cells h a)(''value'' \<mapsto> v))\<rparr>),
      fld_isEmpty = (\<lambda>h a. cells h a ''value'' = None),
      fld_revalidate =
        (\<lambda>h a ec. alloc h [''valid'' \<mapsto> JBool True, ''childrenValid'' \<mapsto> JBool False]),
      fld_resolvePath = (\<lambda>h a path. if path = [''foo''] then JRef 1 else JUndefined)\<rparr>"

text \<open>
  A lazy link to the template, as \<open>init\<close> leaves a new instance; the same link once
  displayed, and under a collapsed parent; a link with one override that sets and one
  that deletes; and a link whose overrides \<open>{'#/0': 1, '0': 2}\<close> write the same
  property, the second key being an array index.
\<close>

definition demoLink :: lazylink where
  "demoLink =
     snd (init demoBase (Some ''link'')
            (Some \<lparr>arg_target = Some ''#/template'', arg_overrides = None\<rparr>)
            (new_LazyLinkfield None demoHeap))"

definition demoActive :: lazylink where
  "demoActive = snd (shouldDisplay demoBase True demoLink)"

definition demoCollapsed :: lazylink where
  "demoCollapsed =
     snd (init demoBase (Some ''link'')
            (Some \<lparr>arg_target = Some ''#/template'', arg_overrides = None\<rparr>)
            (new_LazyLinkfield (Some \<lparr>isCollapsible = True, collapsed = True\<rparr>) demoHeap))"

definition demoOverridden :: lazylink where
  "demoOverridden =
     snd (init demoBase (Some ''link'')
            (Some \<lparr>arg_target = Some ''#/template'',
                   arg_overrides = Some [(''a/b/c'', JNum 2), (''sub;x/y'', JNull)]\<rparr>)
            (new_LazyLinkfield None demoHeap))"

definition demoIndexed :: lazylink where
  "demoIndexed =
     snd (init demoBase (Some ''link'')
            (Some \<lparr>arg_target = Some ''#/template'',
                   arg_overrides = Some [(''#/0'', JNum 1), (''0'', JNum 2)]\<rparr>)
            (new_LazyLinkfield None demoHeap))"

section \<open>Path resolution\<close>

lemma splice_1_Cons: "splice 1 (x # xs) = ([x], xs)"
  by (simp add: splice_def Let_def)

lemma resolveRawPath_Nil: "resolveRawPath h object [] = Inr object"
  by (simp add: resolveRawPath.simps)

lemma resolveRawPath_Cons:
  "resolveRawPath h object (seg # rest) =
     (if seg = ''#'' then resolveRawPath h object rest
      else (case getProp h object seg of
              Inl e \<Rightarrow> Inl e
            | Inr v \<Rightarrow> resolveRawPath h v rest))"
  by (subst resolveRawPath.simps)
    (simp add: index_def key_of_def splice_1_Cons split: sum.splits)

lemma foldl_rawStep_Inl: "foldl (rawStep h) (Inl e) path = Inl e"
  by (induction path) (simp_all add: rawStep_def)

lemma rawStep_Inr:
  "rawStep h (Inr object) seg = (if seg = ''#'' then Inr object else getProp h object seg)"
  by (simp add: rawStep_def)

lemma resolveRawPath_foldl:
  "resolveRawPath h object path = foldl (rawStep h) (Inr object) path"
proof (induction path arbitrary: object)
  case Nil
  show ?case by (simp add: resolveRawPath_Nil)
next
  case (Cons seg rest)
  show ?case
  proof (cases "seg = ''#''")
    case True
    then show ?thesis
      by (simp add: resolveRawPath_Cons Cons.IH rawStep_Inr)
  next
    case False
    show ?thesis
    proof (cases "getProp h object seg")
      case (Inl e)
      with False show ?thesis
        by (simp add: resolveRawPath_Cons rawStep_Inr foldl_rawStep_Inl)
    next
      case (Inr v)
      with False show ?thesis
        by (simp add: resolveRawPath_Cons rawStep_Inr Cons.IH)
    qed
  qed
qed

text \<open>
  Claim C7. For every heap, object and segment list: on the empty list \<open>resolveRawPath\<close>
  returns the object unchanged; on a head \<open>#\<close> it continues on the same object with the
  remaining segments; on any other head it reads \<open>object[head]\<close> and continues there
  with the remaining segments (the failed read of a property of \<open>undefined\<close> or \<open>null\<close>
  being the result); and it equals the reference fold over the segments.
\<close>

theorem resolveRawPath_refines_spec:
  "resolveRawPath h object [] = Inr object
   \<and> resolveRawPath h object (''#'' # rest) = resolveRawPath h object rest
   \<and> resolveRawPath h object (seg # rest) =
       (if seg = ''#'' then resolveRawPath h object rest
        else (case getProp h object seg of
                Inl e \<Rightarrow> Inl e
              | Inr v \<Rightarrow> resolveRawPath h v rest))
   \<and> resolveRawPath h object path = resolveRawPath_spec h object path"
  using resolveRawPath_Nil [of h object] resolveRawPath_Cons [of h object]
    resolveRawPath_foldl [of h object path]
  by (simp add: resolveRawPath_spec_def)

theorem resolveRawPath_refines_spec_witness:
  "resolveRawPath demoHeap (JRef 0) [''a'', ''#'', ''b'', ''c''] = Inr (JNum 1)
   \<and> resolveRawPath demoHeap (JRef 0) [''a'', ''missing'', ''c''] = Inl TypeError"
proof -
  have "resolveRawPath demoHeap (JRef 0) [''a'', ''#'', ''b'', ''c'']
      = resolveRawPath_spec demoHeap (JRef 0) [''a'', ''#'', ''b'', ''c'']"
    using resolveRawPath_refines_spec [of demoHeap "JRef 0" "[]" "''x''"] by blast
  moreover have "resolveRawPath demoHeap (JRef 0) [''a'', ''missing'', ''c'']
      = resolveRawPath_spec demoHeap (JRef 0) [''a'', ''missing'', ''c'']"
    using resolveRawPath_refines_spec [of demoHeap "JRef 0" "[]" "''x''"] by blast
  ultimately show ?thesis
    by (simp add: resolveRawPath_spec_def rawStep_def demoHeap_def)
qed

section \<open>Strings and arrays\<close>

lemma split_on_nonempty: "split_on sep s \<noteq> []"
  by (induction s) (auto split: list.splits)

lemma index_0_split_on:
  "index (split_on sep s) 0 = Some (takeWhile (\<lambda>ch. ch \<noteq> sep) s)"
proof (induction s)
  case Nil
  show ?case by (simp add: index_def)
next
  case (Cons c cs)
  then show ?case
    using split_on_nonempty [of sep cs]
    by (auto simp: index_def split: list.splits)
qed

lemma index_1_split_on:
  "sep \<in> set s \<Longrightarrow>
   index (split_on sep s) 1 =
     Some (takeWhile (\<lambda>ch. ch \<noteq> sep) (drop 1 (dropWhile (\<lambda>ch. ch \<noteq> sep) s)))"
proof (induction s)
  case Nil
  then show ?case by simp
next
  case (Cons c cs)
  show ?case
  proof (cases "c = sep")
    case True
    then show ?thesis
      using index_0_split_on [of sep cs] split_on_nonempty [of sep cs]
      by (cases "split_on sep cs") (auto simp: index_def)
  next
    case False
    with Cons.prems have "sep \<in> set cs" by simp
    from Cons.IH [OF this] False show ?thesis
      by (cases "split_on sep cs") (auto simp: index_def split: if_splits)
  qed
qed

lemma splice_last:
  assumes "xs \<noteq> []"
  shows "splice (- 1) xs = (butlast xs, [last xs])"
proof -
  from assms have pos: "0 < length xs" by simp
  then have idx: "nat (max (int (length xs) + - 1) 0) = length xs - 1"
    by (simp add: max_def) arith
  have tk: "take (length xs - 1) xs = butlast xs"
    by (simp add: butlast_conv_take)
  have "drop (length (butlast xs)) (butlast xs @ [last xs]) = [last xs]"
    by simp
  with assms have dr: "drop (length xs - 1) xs = [last xs]"
    by simp
  have "splice (- 1) xs =
          (take (nat (max (int (length xs) + - 1) 0)) xs,
           drop (nat (max (int (length xs) + - 1) 0)) xs)"
    by (simp add: splice_def Let_def)
  with idx tk dr show ?thesis
    by (simp only:)
qed

section \<open>The order of the entries and the part of a key that is read\<close>

lemma object_entries_Nil [simp]: "object_entries [] = []"
  by (simp add: object_entries_def)

lemma object_entries_no_index:
  "\<forall>e\<in>set ps. array_index (fst e) = None \<Longrightarrow> object_entries ps = ps"
  by (simp add: object_entries_def)

lemma takeWhile_upto:
  "\<forall>x\<in>set xs. P x \<Longrightarrow> \<not> P y \<Longrightarrow> takeWhile P (xs @ y # ys) = xs"
  by (induction xs) simp_all

lemma dropWhile_upto:
  "\<forall>x\<in>set xs. P x \<Longrightarrow> \<not> P y \<Longrightarrow> dropWhile P (xs @ y # ys) = y # ys"
  by (induction xs) simp_all

lemma destructured_no_sep:
  "CHR '';'' \<notin> set field \<Longrightarrow> destructured field = field"
proof -
  assume "CHR '';'' \<notin> set field"
  then have "dropWhile (\<lambda>ch. ch \<noteq> CHR '';'') field = []"
    by (auto simp: dropWhile_eq_Nil_conv)
  then show ?thesis
    unfolding destructured_def by (simp only: list.case)
qed

lemma dropWhile_sep:
  "CHR '';'' \<in> set field \<Longrightarrow>
   dropWhile (\<lambda>ch. ch \<noteq> CHR '';'') field
     = CHR '';'' # drop 1 (dropWhile (\<lambda>ch. ch \<noteq> CHR '';'') field)"
  by (induction field) auto

lemma destructured_sep:
  assumes "CHR '';'' \<in> set field"
  shows "destructured field =
     takeWhile (\<lambda>ch. ch \<noteq> CHR '';'') field
     @ CHR '';'' # takeWhile (\<lambda>ch. ch \<noteq> CHR '';'')
                    (drop 1 (dropWhile (\<lambda>ch. ch \<noteq> CHR '';'') field))"
  by (subst destructured_def, subst dropWhile_sep [OF assms]) simp

lemma destructured_parts:
  assumes "CHR '';'' \<in> set field"
  shows "CHR '';'' \<in> set (destructured field)"
    and "elementPath_spec (destructured field) = takeWhile (\<lambda>ch. ch \<noteq> CHR '';'') field"
    and "fieldPath_spec (destructured field) =
           takeWhile (\<lambda>ch. ch \<noteq> CHR '';'')
             (drop 1 (dropWhile (\<lambda>ch. ch \<noteq> CHR '';'') field))"
proof -
  let ?P = "\<lambda>ch. ch \<noteq> CHR '';''"
  have all: "\<forall>x\<in>set (takeWhile ?P field). ?P x"
    by (auto dest: set_takeWhileD)
  show mem: "CHR '';'' \<in> set (destructured field)"
    by (simp add: destructured_sep [OF assms])
  show "elementPath_spec (destructured field) = takeWhile ?P field"
    unfolding elementPath_spec_def destructured_sep [OF assms]
    using all by (intro takeWhile_upto) auto
  have "dropWhile ?P (destructured field) =
      CHR '';'' # takeWhile ?P (drop 1 (dropWhile ?P field))"
    unfolding destructured_sep [OF assms]
    using all by (intro dropWhile_upto) auto
  with mem show "fieldPath_spec (destructured field) =
           takeWhile ?P (drop 1 (dropWhile ?P field))"
    by (simp add: fieldPath_spec_def)
qed

lemma destructured_single:
  assumes "count_list field CHR '';'' \<le> 1"
  shows "destructured field = field"
proof (cases "CHR '';'' \<in> set field")
  case False
  then show ?thesis by (rule destructured_no_sep)
next
  case True
  let ?P = "\<lambda>ch. ch \<noteq> CHR '';''"
  let ?r = "drop 1 (dropWhile ?P field)"
  have "takeWhile ?P field @ dropWhile ?P field = field"
    by (rule takeWhile_dropWhile_id)
  then have whole: "takeWhile ?P field @ CHR '';'' # ?r = field"
    by (subst (asm) dropWhile_sep [OF True])
  have "count_list (takeWhile ?P field @ CHR '';'' # ?r) CHR '';'' \<le> 1"
    using assms by (simp only: whole)
  then have "count_list ?r CHR '';'' = 0"
    by simp
  then have "CHR '';'' \<notin> set ?r"
    by (simp add: count_list_0_iff)
  then have "takeWhile ?P ?r = ?r"
    by (auto simp: takeWhile_eq_all_conv)
  then have "destructured field = takeWhile ?P field @ CHR '';'' # ?r"
    by (simp only: destructured_sep [OF True])
  with whole show ?thesis
    by (simp only:)
qed

section \<open>The concrete field tree, evaluated\<close>

lemma demoLink_eq:
  "demoLink = \<lparr>target = ''#/template'', overrides = [], child = None,
      cachedValue = JUndefined, parent = None, world = demoHeap\<rparr>"
  by (simp add: demoLink_def init_def new_LazyLinkfield_def demoBase_def)

lemma demoActive_eq:
  "demoActive = \<lparr>target = ''#/template'', overrides = [], child = Some 5,
      cachedValue = JUndefined, parent = None,
      world = demoHeap\<lparr>cells := (cells demoHeap)(5 := cells demoHeap 0), nextAddr := 6\<rparr>\<rparr>"
  by (simp add: demoActive_def demoLink_eq shouldDisplay_def createChild_def
      isParentCollapsed_def demoBase_def alloc_def demoHeap_def)

lemma demoCollapsed_eq:
  "demoCollapsed = \<lparr>target = ''#/template'', overrides = [], child = None,
      cachedValue = JUndefined, parent = Some \<lparr>isCollapsible = True, collapsed = True\<rparr>,
      world = demoHeap\<rparr>"
  by (simp add: demoCollapsed_def init_def new_LazyLinkfield_def demoBase_def)

lemma demoOverridden_eq:
  "demoOverridden = \<lparr>target = ''#/template'',
      overrides = [(''a/b/c'', JNum 2), (''sub;x/y'', JNull)], child = None,
      cachedValue = JUndefined, parent = None, world = demoHeap\<rparr>"
  by (simp add: demoOverridden_def init_def new_LazyLinkfield_def demoBase_def)

lemma shouldDisplay_demoLink:
  "shouldDisplay demoBase True demoLink = (Inr True, demoActive)"
  by (simp add: demoActive_eq demoLink_eq shouldDisplay_def createChild_def
      isParentCollapsed_def demoBase_def alloc_def demoHeap_def)
lemma demoIndexed_eq:
  "demoIndexed = \<lparr>target = ''#/template'',
      overrides = [(''#/0'', JNum 1), (''0'', JNum 2)], child = None,
      cachedValue = JUndefined, parent = None, world = demoHeap\<rparr>"
  by (simp add: demoIndexed_def init_def new_LazyLinkfield_def demoBase_def)

lemma array_index_demo:
  "array_index ''a/b/c'' = None" "array_index ''sub;x/y'' = None"
  "array_index ''#/0'' = None" "array_index ''0'' = Some 0"
  by (simp_all add: array_index_def is_digit_def decimal_def)

section \<open>Override application\<close>

lemma applyOverride_refines:
  "applyOverride B c h entry = applyOverride_spec B c h (destructured (fst entry), snd entry)"
proof (cases entry)
  case (Pair field v)
  let ?segs = "split_on CHR ''/'' (fieldPath_spec (destructured field))"
  have ne: "?segs \<noteq> []" by (rule split_on_nonempty)
  have sp: "splice (- 1) ?segs = (butlast ?segs, [last ?segs])"
    using ne by (rule splice_last)
  show ?thesis
  proof (cases "CHR '';'' \<in> set field")
    case True
    note parts = destructured_parts [OF True]
    from sp have sp': "splice (- 1)
        (split_on CHR ''/'' (takeWhile (\<lambda>ch. ch \<noteq> CHR '';'')
           (drop 1 (dropWhile (\<lambda>ch. ch \<noteq> CHR '';'') field))))
        = (butlast ?segs, [last ?segs])"
      by (simp only: parts(3))
    show ?thesis
      using Pair True sp' index_0_split_on [of "CHR '';''" field] index_1_split_on [OF True]
      by (auto simp add: applyOverride_def applyOverride_spec_def includes_chr_def
          parts overrideRoot_spec_def key_of_def
          index_def resolveRawPath_foldl resolveRawPath_spec_def Let_def split: sum.splits)
  next
    case False
    then have same: "destructured field = field" by (rule destructured_no_sep)
    from False show ?thesis
      using Pair sp
      by (auto simp add: applyOverride_def applyOverride_spec_def includes_chr_def same
          fieldPath_spec_def overrideRoot_spec_def key_of_def
          index_def resolveRawPath_foldl resolveRawPath_spec_def Let_def split: sum.splits)
  qed
qed

lemma applyOverrides_refines:
  "applyOverrides B c h entries =
     applyOverrides_spec B c h (map (\<lambda>e. (destructured (fst e), snd e)) entries)"
  by (induction entries arbitrary: h)
    (simp_all add: applyOverride_refines cong: sum.case_cong)

text \<open>
  Claim C5, as amended. During child creation the entries of the overrides are applied
  in the order in which \<open>Object.entries\<close> lists them: keys that are array indices
  first, in ascending numeric order, then the other keys in the order of insertion,
  which is the order of insertion when no key is an array index. Each entry is applied
  as the specification words it, to the part of its key before a second \<open>;\<close>, which
  is the whole key when it has at most one: the root is the node that the child's
  \<open>resolveRef\<close> finds for the element path when the key has a separator \<open>;\<close>, and the
  child itself otherwise; the field path is split at \<open>/\<close>, its last segment is the
  terminal property and the segments before it are resolved from the root to the
  container; the property is deleted when the value is \<open>null\<close> and set to the value
  otherwise. An entry that throws ends the loop with the earlier entries applied. When
  the target resolves to a field, \<open>createChild\<close> is the clone, this loop, and the
  transfer of a truthy cached value.
\<close>

theorem createChild_applies_overrides:
  assumes "this_resolveRef B (world s) (target s) = JRef t"
    and "clone B (world s) t = (c, h1)"
  shows "applyOverride B c h entry =
           applyOverride_spec B c h (destructured (fst entry), snd entry)
    \<and> (count_list (fst entry) CHR '';'' \<le> 1 \<longrightarrow>
          applyOverride B c h entry = applyOverride_spec B c h entry)
    \<and> applyOverrides B c h entries =
          applyOverrides_spec B c h (map (\<lambda>e. (destructured (fst e), snd e)) entries)
    \<and> ((\<forall>e\<in>set (overrides s). array_index (fst e) = None) \<longrightarrow>
          object_entries (overrides s) = overrides s)
    \<and> createChild B s =
        (case applyOverrides_spec B c h1
                (map (\<lambda>e. (destructured (fst e), snd e)) (object_entries (overrides s))) of
           (Inl e, h2) \<Rightarrow> (Inl e, s\<lparr>child := Some c, world := h2\<rparr>)
         | (Inr u, h2) \<Rightarrow>
             (Inr (),
              if truthy (cachedValue s)
              then s\<lparr>child := Some c, world := fld_setValue B h2 c (cachedValue s),
                     cachedValue := JUndefined\<rparr>
              else s\<lparr>child := Some c, world := h2\<rparr>))"
proof -
  have entry: "applyOverride B c h entry =
      applyOverride_spec B c h (destructured (fst entry), snd entry)"
    by (rule applyOverride_refines)
  have single: "applyOverride B c h entry = applyOverride_spec B c h entry"
    if "count_list (fst entry) CHR '';'' \<le> 1"
    using destructured_single [OF that] by (simp add: applyOverride_refines)
  have loop: "applyOverrides B c h entries =
      applyOverrides_spec B c h (map (\<lambda>e. (destructured (fst e), snd e)) entries)"
    by (rule applyOverrides_refines)
  have order: "object_entries (overrides s) = overrides s"
    if "\<forall>e\<in>set (overrides s). array_index (fst e) = None"
    using that by (rule object_entries_no_index)
  have create: "createChild B s =
        (case applyOverrides_spec B c h1
                (map (\<lambda>e. (destructured (fst e), snd e)) (object_entries (overrides s))) of
           (Inl e, h2) \<Rightarrow> (Inl e, s\<lparr>child := Some c, world := h2\<rparr>)
         | (Inr u, h2) \<Rightarrow>
             (Inr (),
              if truthy (cachedValue s)
              then s\<lparr>child := Some c, world := fld_setValue B h2 c (cachedValue s),
                     cachedValue := JUndefined\<rparr>
              else s\<lparr>child := Some c, world := h2\<rparr>))"
    using assms
    by (auto simp: createChild_def Let_def applyOverrides_refines
        split: prod.splits sum.splits)
  from entry single loop order create show ?thesis
    by blast
qed

theorem createChild_applies_overrides_witness:
  "this_resolveRef demoBase (world demoOverridden) (target demoOverridden) = JRef 0
   \<and> fst (clone demoBase (world demoOverridden) 0) = 5
   \<and> count_list ''sub;x/y'' CHR '';'' \<le> 1
   \<and> array_index ''a/b/c'' = None \<and> array_index ''sub;x/y'' = None
   \<and> object_entries (overrides demoOverridden) = overrides demoOverridden
   \<and> applyOverride demoBase 5 (snd (clone demoBase (world demoOverridden) 0)) (''sub;x/y'', JNull)
       = applyOverride_spec demoBase 5 (snd (clone demoBase (world demoOverridden) 0))
           (''sub;x/y'', JNull)
   \<and> fst (createChild demoBase demoOverridden) = Inr ()
   \<and> child (snd (createChild demoBase demoOverridden)) = Some 5
   \<and> cells (world (snd (createChild demoBase demoOverridden))) 2 ''c'' = Some (JNum 2)
   \<and> cells (world (snd (createChild demoBase demoOverridden))) 4 ''y'' = None"
proof -
  have ref: "this_resolveRef demoBase (world demoOverridden) (target demoOverridden) = JRef 0"
    by (simp add: demoOverridden_eq demoBase_def)
  have cl: "clone demoBase (world demoOverridden) 0 =
      (5, demoHeap\<lparr>cells := (cells demoHeap)(5 := cells demoHeap 0), nextAddr := 6\<rparr>)"
    by (simp add: demoOverridden_eq demoBase_def alloc_def demoHeap_def)
  have single: "count_list ''sub;x/y'' CHR '';'' \<le> 1"
    by simp
  have plain: "\<forall>e\<in>set (overrides demoOverridden). array_index (fst e) = None"
    by (simp add: demoOverridden_eq array_index_demo)
  have keys: "destructured ''a/b/c'' = ''a/b/c''" "destructured ''sub;x/y'' = ''sub;x/y''"
    by (simp_all add: destructured_def)
  have segs: "split_on CHR ''/'' ''a/b/c'' = [''a'', ''b'', ''c'']"
    "split_on CHR ''/'' ''x/y'' = [''x'', ''y'']"
    by simp_all
  have paths: "fieldPath_spec ''a/b/c'' = ''a/b/c''" "fieldPath_spec ''sub;x/y'' = ''x/y''"
    "elementPath_spec ''sub;x/y'' = ''sub''"
    by (simp_all add: fieldPath_spec_def elementPath_spec_def)
  note inst = createChild_applies_overrides [OF ref cl,
      of "snd (clone demoBase (world demoOverridden) 0)" "(''sub;x/y'', JNull)" "[]"]
  have single': "count_list (fst (''sub;x/y'', JNull)) CHR '';'' \<le> 1"
    by simp
  from inst single' have one: "applyOverride demoBase 5
        (snd (clone demoBase (world demoOverridden) 0)) (''sub;x/y'', JNull)
       = applyOverride_spec demoBase 5 (snd (clone demoBase (world demoOverridden) 0))
           (''sub;x/y'', JNull)"
    by blast
  from inst plain have order: "object_entries (overrides demoOverridden) = overrides demoOverridden"
    by blast
  from inst have create: "createChild demoBase demoOverridden =
        (case applyOverrides_spec demoBase 5
                (demoHeap\<lparr>cells := (cells demoHeap)(5 := cells demoHeap 0), nextAddr := 6\<rparr>)
                (map (\<lambda>e. (destructured (fst e), snd e))
                   (object_entries (overrides demoOverridden))) of
           (Inl e, h2) \<Rightarrow> (Inl e, demoOverridden\<lparr>child := Some 5, world := h2\<rparr>)
         | (Inr u, h2) \<Rightarrow>
             (Inr (),
              if truthy (cachedValue demoOverridden)
              then demoOverridden\<lparr>child := Some 5,
                     world := fld_setValue demoBase h2 5 (cachedValue demoOverridden),
                     cachedValue := JUndefined\<rparr>
              else demoOverridden\<lparr>child := Some 5, world := h2\<rparr>))"
    by blast
  have result: "fst (createChild demoBase demoOverridden) = Inr ()
   \<and> child (snd (createChild demoBase demoOverridden)) = Some 5
   \<and> cells (world (snd (createChild demoBase demoOverridden))) 2 ''c'' = Some (JNum 2)
   \<and> cells (world (snd (createChild demoBase demoOverridden))) 4 ''y'' = None"
    unfolding create order
    by (simp add: demoOverridden_eq keys applyOverride_spec_def overrideRoot_spec_def
        resolveRawPath_spec_def rawStep_def segs paths demoBase_def demoHeap_def)
  from ref cl single order one result show ?thesis
    by (simp add: array_index_demo)
qed

text \<open>
  Claim C5 as stated fails in two places. With the overrides \<open>{'#/0': 1, '0': 2}\<close>,
  inserted in this order, the loop applies \<open>'0'\<close> first, so the child's property \<open>0\<close>
  ends as 1, where the order of insertion gives 2. And for the key \<open>sub;x/y;z\<close> the
  code writes \<open>x.y\<close> of the node \<open>sub\<close>, where the remainder after the separator
  names the property \<open>y;z\<close> of \<open>x\<close>.
\<close>

theorem overrides_order_counterexample:
  "overrides demoIndexed = [(''#/0'', JNum 1), (''0'', JNum 2)]
   \<and> fst (createChild demoBase demoIndexed) = Inr ()
   \<and> child (snd (createChild demoBase demoIndexed)) = Some 5
   \<and> cells (world (snd (createChild demoBase demoIndexed))) 5 ''0'' = Some (JNum 1)
   \<and> cells (snd (applyOverrides_spec demoBase 5 (snd (clone demoBase demoHeap 0))
                   (overrides demoIndexed))) 5 ''0'' = Some (JNum 2)
   \<and> cells (projr (applyOverride demoBase 0 demoHeap (''sub;x/y;z'', JNum 5))) 4 ''y''
       = Some (JNum 5)
   \<and> cells (projr (applyOverride_spec demoBase 0 demoHeap (''sub;x/y;z'', JNum 5))) 4 ''y''
       = Some (JNum 0)
   \<and> cells (projr (applyOverride_spec demoBase 0 demoHeap (''sub;x/y;z'', JNum 5))) 4 ''y;z''
       = Some (JNum 5)"
proof -
  have ord: "object_entries [(''#/0'', JNum 1), (''0'', JNum 2)]
      = [(''0'', JNum 2), (''#/0'', JNum 1)]"
    by (simp add: object_entries_def array_index_demo)
  have segs: "split_on CHR ''/'' ''#/0'' = [''#'', ''0'']" "split_on CHR ''/'' ''0'' = [''0'']"
    "split_on CHR ''/'' ''x/y;z'' = [''x'', ''y;z'']"
    "split_on CHR ''/'' ''x/y'' = [''x'', ''y'']"
    "split_on CHR '';'' ''sub;x/y;z'' = [''sub'', ''x/y'', ''z'']"
    by simp_all
  have code: "fst (createChild demoBase demoIndexed) = Inr ()
   \<and> child (snd (createChild demoBase demoIndexed)) = Some 5
   \<and> cells (world (snd (createChild demoBase demoIndexed))) 5 ''0'' = Some (JNum 1)"
    by (simp add: demoIndexed_eq createChild_def ord applyOverride_def includes_chr_def
        segs index_def key_of_def splice_def Let_def resolveRawPath_Nil resolveRawPath_Cons
        demoBase_def demoHeap_def alloc_def)
  have paths: "fieldPath_spec ''#/0'' = ''#/0''" "fieldPath_spec ''0'' = ''0''"
    "fieldPath_spec ''sub;x/y;z'' = ''x/y;z''" "elementPath_spec ''sub;x/y;z'' = ''sub''"
    by (simp_all add: fieldPath_spec_def elementPath_spec_def)
  have insertion: "cells (snd (applyOverrides_spec demoBase 5 (snd (clone demoBase demoHeap 0))
                   (overrides demoIndexed))) 5 ''0'' = Some (JNum 2)"
    by (simp add: demoIndexed_eq applyOverride_spec_def overrideRoot_spec_def
        resolveRawPath_spec_def rawStep_def segs paths demoBase_def demoHeap_def alloc_def)
  have cut: "cells (projr (applyOverride demoBase 0 demoHeap (''sub;x/y;z'', JNum 5))) 4 ''y''
       = Some (JNum 5)"
    by (simp add: applyOverride_def includes_chr_def
        segs index_def key_of_def splice_def Let_def resolveRawPath_Nil resolveRawPath_Cons
        demoBase_def demoHeap_def)
  have remainder:
    "cells (projr (applyOverride_spec demoBase 0 demoHeap (''sub;x/y;z'', JNum 5))) 4 ''y''
       = Some (JNum 0)"
    "cells (projr (applyOverride_spec demoBase 0 demoHeap (''sub;x/y;z'', JNum 5))) 4 ''y;z''
       = Some (JNum 5)"
    by (simp_all add: applyOverride_spec_def overrideRoot_spec_def
        resolveRawPath_spec_def rawStep_def segs paths demoBase_def demoHeap_def)
  from code insertion cut remainder show ?thesis
    by (simp add: demoIndexed_eq)
qed

section \<open>The cached value and the child\<close>

lemma setValue_absent:
  "child s = None \<Longrightarrow>
   setValue B v s = s\<lparr>world := onSetValue B (world s) v, cachedValue := v\<rparr>"
  by (simp add: setValue_def Let_def)

lemma isParentCollapsed_upd [simp]:
  "isParentCollapsed (s\<lparr>world := h\<rparr>) = isParentCollapsed s"
  "isParentCollapsed (s\<lparr>cachedValue := v\<rparr>) = isParentCollapsed s"
  "isParentCollapsed (s\<lparr>child := ch\<rparr>) = isParentCollapsed s"
  by (simp_all add: isParentCollapsed_def)

lemma createChild_returns:
  assumes "fst (createChild B s) = Inr ()"
  shows "child (snd (createChild B s)) \<noteq> None"
    and "truthy (cachedValue s) \<or> cachedValue s = JUndefined \<Longrightarrow>
         cachedValue (snd (createChild B s)) = JUndefined"
    and "truthy (cachedValue s) \<Longrightarrow>
         \<exists>h c. child (snd (createChild B s)) = Some c
           \<and> world (snd (createChild B s)) = fld_setValue B h c (cachedValue s)"
  using assms
  by (auto simp: createChild_def Let_def split: jsval.splits prod.splits sum.splits if_splits)

text \<open>
  Claim C1, as amended. After \<open>setValue(v)\<close> on a field without child, a call of
  \<open>shouldDisplay()\<close> that finds the field displayed and its parent not collapsed, and
  returns, has created the child. For every truthy \<open>v\<close> the value has been passed to the
  \<open>setValue\<close> of the created child, and \<open>getValue()\<close> returns what that child's
  \<open>getValue\<close> returns on the heap its \<open>setValue(v)\<close> left: hence \<open>v\<close>, provided the
  created child's \<open>getValue\<close> returns what its \<open>setValue\<close> stored. For every \<open>v\<close>
  that is truthy or \<open>undefined\<close>, \<open>cachedValue\<close> is \<open>undefined\<close> afterwards.
\<close>

theorem setValue_then_createChild_roundtrip:
  assumes "child s = None"
    and "\<not> isParentCollapsed s"
    and "fst (shouldDisplay B True (setValue B v s)) = Inr True"
  shows "child (snd (shouldDisplay B True (setValue B v s))) \<noteq> None
    \<and> (truthy v \<or> v = JUndefined \<longrightarrow>
          cachedValue (snd (shouldDisplay B True (setValue B v s))) = JUndefined)
    \<and> (truthy v \<longrightarrow>
          (\<exists>h c. child (snd (shouldDisplay B True (setValue B v s))) = Some c
             \<and> world (snd (shouldDisplay B True (setValue B v s))) = fld_setValue B h c v
             \<and> getValue B (snd (shouldDisplay B True (setValue B v s)))
                 = fld_getValue B (fld_setValue B h c v) c))
    \<and> (truthy v \<and> child (snd (shouldDisplay B True (setValue B v s))) = Some c
          \<and> (\<forall>h. fld_getValue B (fld_setValue B h c v) c = v) \<longrightarrow>
          getValue B (snd (shouldDisplay B True (setValue B v s))) = v)"
proof -
  let ?s1 = "s\<lparr>world := onSetValue B (world s) v, cachedValue := v\<rparr>"
  have s1: "setValue B v s = ?s1"
    using assms(1) by (rule setValue_absent)
  have sd: "shouldDisplay B True ?s1 =
      (case createChild B ?s1 of
         (Inl e, s') \<Rightarrow> (Inl e, s')
       | (Inr u, s') \<Rightarrow> (Inr True, s'))"
    using assms(1,2) by (simp add: shouldDisplay_def)
  have ok: "fst (createChild B ?s1) = Inr ()"
    using assms(3) by (simp add: s1 sd split: prod.splits sum.splits)
  have after: "snd (shouldDisplay B True (setValue B v s)) = snd (createChild B ?s1)"
    by (simp add: s1 sd split: prod.splits sum.splits)
  have cached: "cachedValue ?s1 = v" by simp
  note facts = createChild_returns [OF ok, unfolded cached]
  have present: "child (snd (createChild B ?s1)) \<noteq> None"
    by (rule facts(1))
  have cleared: "cachedValue (snd (createChild B ?s1)) = JUndefined"
    if "truthy v \<or> v = JUndefined"
    using that by (rule facts(2))
  have stored: "\<exists>h c. child (snd (createChild B ?s1)) = Some c
      \<and> world (snd (createChild B ?s1)) = fld_setValue B h c v
      \<and> getValue B (snd (createChild B ?s1)) = fld_getValue B (fld_setValue B h c v) c"
    if "truthy v"
  proof -
    from facts(3) [OF that] obtain h c' where
      "child (snd (createChild B ?s1)) = Some c'"
      "world (snd (createChild B ?s1)) = fld_setValue B h c' v"
      by blast
    then show ?thesis by (auto simp: getValue_def)
  qed
  have roundtrip: "getValue B (snd (createChild B ?s1)) = v"
    if "truthy v" and "child (snd (createChild B ?s1)) = Some c"
      and "\<forall>h. fld_getValue B (fld_setValue B h c v) c = v"
    using stored [OF that(1)] that(2,3) by auto
  from present cleared stored roundtrip show ?thesis
    unfolding after by blast
qed

theorem setValue_then_createChild_roundtrip_witness:
  "child demoLink = None \<and> \<not> isParentCollapsed demoLink
   \<and> fst (shouldDisplay demoBase True (setValue demoBase (JStr ''x'') demoLink)) = Inr True
   \<and> truthy (JStr ''x'')
   \<and> child (snd (shouldDisplay demoBase True (setValue demoBase (JStr ''x'') demoLink))) = Some 5
   \<and> (\<forall>h. fld_getValue demoBase (fld_setValue demoBase h 5 (JStr ''x'')) 5 = JStr ''x'')
   \<and> getValue demoBase (snd (shouldDisplay demoBase True (setValue demoBase (JStr ''x'') demoLink)))
       = JStr ''x''
   \<and> cachedValue (snd (shouldDisplay demoBase True (setValue demoBase (JStr ''x'') demoLink)))
       = JUndefined"
proof -
  have absent: "child demoLink = None"
    by (simp add: demoLink_eq)
  have uncollapsed: "\<not> isParentCollapsed demoLink"
    by (simp add: demoLink_eq isParentCollapsed_def)
  have returns:
    "fst (shouldDisplay demoBase True (setValue demoBase (JStr ''x'') demoLink)) = Inr True"
    by (simp add: demoLink_eq shouldDisplay_def setValue_def createChild_def
        isParentCollapsed_def demoBase_def demoHeap_def alloc_def)
  have created:
    "child (snd (shouldDisplay demoBase True (setValue demoBase (JStr ''x'') demoLink))) = Some 5"
    by (simp add: demoLink_eq shouldDisplay_def setValue_def createChild_def
        isParentCollapsed_def demoBase_def demoHeap_def alloc_def)
  have law: "\<forall>h. fld_getValue demoBase (fld_setValue demoBase h 5 (JStr ''x'')) 5 = JStr ''x''"
    by (simp add: demoBase_def)
  have tr: "truthy (JStr ''x'')" by simp
  from setValue_then_createChild_roundtrip [OF absent uncollapsed returns, of 5]
    absent uncollapsed returns created law tr
  show ?thesis by blast
qed

text \<open>
  Claim C1 as stated fails at \<open>v = undefined\<close>: nothing is cached, the child is
  created, and \<open>getValue()\<close> returns the value of the clone, here \<open>'default'\<close>.
\<close>

theorem setValue_undefined_counterexample:
  "child demoLink = None
   \<and> fst (shouldDisplay demoBase True (setValue demoBase JUndefined demoLink)) = Inr True
   \<and> child (snd (shouldDisplay demoBase True (setValue demoBase JUndefined demoLink))) = Some 5
   \<and> getValue demoBase (snd (shouldDisplay demoBase True (setValue demoBase JUndefined demoLink)))
       = JStr ''default''"
  by (simp add: demoLink_eq shouldDisplay_def setValue_def createChild_def getValue_def
      isParentCollapsed_def demoBase_def demoHeap_def alloc_def)

text \<open>
  Claim C2. The invariant that a field with a child has \<open>cachedValue = undefined\<close> does
  not hold of the code: \<open>createChild\<close> tests the cached value for truthiness, so a cached
  \<open>0\<close> (as \<open>false\<close>, \<open>null\<close> and the empty string) is neither passed to the child nor
  cleared. After \<open>init\<close>, \<open>setValue(0)\<close> and a displaying \<open>shouldDisplay()\<close> the child
  exists, \<open>cachedValue\<close> is still \<open>0\<close>, and \<open>getValue()\<close> returns the clone's
  \<open>'default'\<close>.
\<close>

theorem falsy_cachedValue_kept_with_child:
  "child demoLink = None \<and> cachedValue demoLink = JUndefined
   \<and> fst (shouldDisplay demoBase True (setValue demoBase (JNum 0) demoLink)) = Inr True
   \<and> child (snd (shouldDisplay demoBase True (setValue demoBase (JNum 0) demoLink))) = Some 5
   \<and> cachedValue (snd (shouldDisplay demoBase True (setValue demoBase (JNum 0) demoLink)))
       = JNum 0
   \<and> getValue demoBase (snd (shouldDisplay demoBase True (setValue demoBase (JNum 0) demoLink)))
       = JStr ''default''"
  by (simp add: demoLink_eq shouldDisplay_def setValue_def createChild_def getValue_def
      isParentCollapsed_def demoBase_def demoHeap_def alloc_def)

text \<open>
  Claim C4. On a field whose child's \<open>getValue()\<close> yields \<open>v\<close>, a call of
  \<open>shouldDisplay()\<close> that finds the field not displayed returns, stores \<open>v\<close> in
  \<open>cachedValue\<close> and drops the child; \<open>getValue()\<close> returns \<open>v\<close> from then on, also
  after further such calls of \<open>shouldDisplay()\<close>.
\<close>

theorem deleteChild_captures_value:
  assumes "child s = Some c" and "fld_getValue B (world s) c = v"
  shows "fst (shouldDisplay B False s) = Inr False
    \<and> child (snd (shouldDisplay B False s)) = None
    \<and> cachedValue (snd (shouldDisplay B False s)) = v
    \<and> getValue B (snd (shouldDisplay B False s)) = v
    \<and> getValue B (snd (shouldDisplay B False (snd (shouldDisplay B False s)))) = v"
  using assms by (simp add: shouldDisplay_def deleteChild_def getValue_def)

theorem deleteChild_captures_value_witness:
  "child demoActive = Some 5
   \<and> fld_getValue demoBase (world demoActive) 5 = JStr ''default''
   \<and> child (snd (shouldDisplay demoBase False demoActive)) = None
   \<and> cachedValue (snd (shouldDisplay demoBase False demoActive)) = JStr ''default''
   \<and> getValue demoBase (snd (shouldDisplay demoBase False demoActive)) = JStr ''default''"
proof -
  have present: "child demoActive = Some 5" by (simp add: demoActive_eq)
  have val: "fld_getValue demoBase (world demoActive) 5 = JStr ''default''"
    by (simp add: demoActive_eq demoBase_def demoHeap_def)
  from deleteChild_captures_value [OF present val] present val
  show ?thesis by simp
qed

text \<open>
  Claim C9. \<open>setValue(v)\<close> on a field without child stores \<open>v\<close> in \<open>cachedValue\<close> and
  creates no child; on a field with a child it passes \<open>v\<close> to the child's \<open>setValue\<close>
  and leaves \<open>cachedValue\<close> as it was. In both cases the heap is what the \<open>onSetValue\<close>
  hook left (then changed by the child's \<open>setValue\<close>), and \<open>target\<close>, \<open>overrides\<close>
  and \<open>parent\<close> are unchanged.
\<close>

theorem setValue_frame:
  "(child s = None \<longrightarrow>
      child (setValue B v s) = None \<and> cachedValue (setValue B v s) = v
      \<and> world (setValue B v s) = onSetValue B (world s) v)
   \<and> (child s = Some c \<longrightarrow>
      child (setValue B v s) = Some c \<and> cachedValue (setValue B v s) = cachedValue s
      \<and> world (setValue B v s) = fld_setValue B (onSetValue B (world s) v) c v)
   \<and> target (setValue B v s) = target s \<and> overrides (setValue B v s) = overrides s
   \<and> parent (setValue B v s) = parent s"
  by (cases "child s") (simp_all add: setValue_def Let_def)

theorem setValue_frame_witness:
  "child demoLink = None \<and> child demoActive = Some 5
   \<and> child (setValue demoBase (JNum 3) demoLink) = None
   \<and> cachedValue (setValue demoBase (JNum 3) demoLink) = JNum 3
   \<and> world (setValue demoBase (JNum 3) demoLink) = world demoLink
   \<and> child (setValue demoBase (JNum 3) demoActive) = Some 5
   \<and> cachedValue (setValue demoBase (JNum 3) demoActive) = JUndefined
   \<and> getValue demoBase (setValue demoBase (JNum 3) demoActive) = JNum 3"
proof -
  have absent: "child demoLink = None" by (simp add: demoLink_eq)
  have present: "child demoActive = Some 5" by (simp add: demoActive_eq)
  have hook: "onSetValue demoBase (world demoLink) (JNum 3) = world demoLink"
    by (simp add: demoBase_def)
  have cached: "cachedValue demoActive = JUndefined" by (simp add: demoActive_eq)
  have stored: "fld_getValue demoBase
      (fld_setValue demoBase (onSetValue demoBase (world demoActive) (JNum 3)) 5 (JNum 3)) 5
      = JNum 3"
    by (simp add: demoBase_def)
  from setValue_frame [of demoLink demoBase "JNum 3" 5]
    setValue_frame [of demoActive demoBase "JNum 3" 5]
    absent present hook cached stored
  show ?thesis by (simp add: getValue_def)
qed

section \<open>Display as the driver of the state machine\<close>

lemma createChild_outcome:
  "createChild B s = (Inl TypeError, s) \<or> child (snd (createChild B s)) \<noteq> None"
  by (auto simp: createChild_def Let_def split: jsval.splits prod.splits sum.splits)

lemma shouldDisplay_child_present:
  "child s \<noteq> None \<Longrightarrow> shouldDisplay B True s = (Inr True, s)"
  by (auto simp: shouldDisplay_def)

lemma shouldDisplay_child_absent:
  "child s = None \<Longrightarrow> shouldDisplay B False s = (Inr False, s)"
  by (simp add: shouldDisplay_def)

lemma shouldDisplay_twice:
  "shouldDisplay B d (snd (shouldDisplay B d s)) = shouldDisplay B d s
   \<or> shouldDisplay B d (snd (shouldDisplay B d s)) = (Inr d, snd (shouldDisplay B d s))"
proof (cases d)
  case False
  then show ?thesis
    by (cases "child s") (simp_all add: shouldDisplay_def deleteChild_def)
next
  case True
  show ?thesis
  proof (cases "child s = None \<and> \<not> isParentCollapsed s")
    case False
    with True show ?thesis by (auto simp: shouldDisplay_def)
  next
    case create: True
    from createChild_outcome [of B s] show ?thesis
    proof
      assume "createChild B s = (Inl TypeError, s)"
      with True create show ?thesis by (simp add: shouldDisplay_def)
    next
      assume present: "child (snd (createChild B s)) \<noteq> None"
      have "snd (shouldDisplay B True s) = snd (createChild B s)"
        using create by (simp add: shouldDisplay_def split: prod.splits sum.splits)
      with present True show ?thesis
        by (simp add: shouldDisplay_child_present)
    qed
  qed
qed

text \<open>
  Claim C3. For every state and either result \<open>d\<close> of the base class, a second call of
  \<open>shouldDisplay()\<close> under the same \<open>d\<close> leaves the whole state, hence \<open>child\<close> and
  \<open>cachedValue\<close>, as the first call left it, whether the first call returned or threw
  inside \<open>createChild\<close>; and when the first call returned, so does the second, with the
  same result. A displayed field with a child is left as it is (no second child), and so is
  a hidden field without one (nothing to delete).
\<close>

theorem shouldDisplay_idempotent:
  "snd (shouldDisplay B d (snd (shouldDisplay B d s))) = snd (shouldDisplay B d s)
   \<and> (child s \<noteq> None \<longrightarrow> shouldDisplay B True s = (Inr True, s))
   \<and> (child s = None \<longrightarrow> shouldDisplay B False s = (Inr False, s))
   \<and> (fst (shouldDisplay B d s) = Inr d \<longrightarrow>
        shouldDisplay B d (snd (shouldDisplay B d s)) = (Inr d, snd (shouldDisplay B d s)))"
proof -
  have twice: "snd (shouldDisplay B d (snd (shouldDisplay B d s))) = snd (shouldDisplay B d s)"
    using shouldDisplay_twice [of B d s] by auto
  have again: "shouldDisplay B d (snd (shouldDisplay B d s)) = (Inr d, snd (shouldDisplay B d s))"
    if "fst (shouldDisplay B d s) = Inr d"
    using shouldDisplay_twice [of B d s] that by (auto simp: prod_eq_iff)
  from twice again show ?thesis
    by (simp add: shouldDisplay_child_present shouldDisplay_child_absent)
qed

theorem shouldDisplay_idempotent_witness:
  "child demoLink = None \<and> child demoActive \<noteq> None
   \<and> fst (shouldDisplay demoBase True demoLink) = Inr True
   \<and> shouldDisplay demoBase True demoActive = (Inr True, demoActive)
   \<and> shouldDisplay demoBase False demoLink = (Inr False, demoLink)
   \<and> shouldDisplay demoBase True (snd (shouldDisplay demoBase True demoLink))
       = (Inr True, snd (shouldDisplay demoBase True demoLink))"
proof -
  have absent: "child demoLink = None" by (simp add: demoLink_eq)
  have present: "child demoActive \<noteq> None" by (simp add: demoActive_eq)
  have returns: "fst (shouldDisplay demoBase True demoLink) = Inr True"
    by (simp add: shouldDisplay_demoLink)
  from shouldDisplay_idempotent [of demoBase True demoLink]
    shouldDisplay_idempotent [of demoBase True demoActive]
    absent present returns
  show ?thesis by simp
qed

text \<open>
  Claim C10. A call of \<open>shouldDisplay()\<close> that returns, returns the result \<open>d\<close> of the
  base class, whatever the state and whether or not a child was created or deleted. It
  returns unless \<open>createChild\<close> is called and throws. When the base result is true, no
  child exists and the parent is collapsible and collapsed, the call returns true and
  leaves the state as it was: no child, \<open>cachedValue\<close> untouched.
\<close>

theorem shouldDisplay_returns_display:
  "(fst (shouldDisplay B d s) = Inr r \<longrightarrow> r = d)
   \<and> (\<not> d \<or> child s \<noteq> None \<or> isParentCollapsed s \<or> fst (createChild B s) = Inr ()
        \<longrightarrow> fst (shouldDisplay B d s) = Inr d)
   \<and> (child s = None \<and> isParentCollapsed s \<longrightarrow> shouldDisplay B True s = (Inr True, s))"
  by (auto simp: shouldDisplay_def split: prod.splits sum.splits option.splits)

theorem shouldDisplay_returns_display_witness:
  "child demoCollapsed = None \<and> isParentCollapsed demoCollapsed
   \<and> shouldDisplay demoBase True demoCollapsed = (Inr True, demoCollapsed)
   \<and> cachedValue (snd (shouldDisplay demoBase True demoCollapsed)) = cachedValue demoCollapsed
   \<and> fst (createChild demoBase demoLink) = Inr ()
   \<and> fst (shouldDisplay demoBase True demoLink) = Inr True
   \<and> fst (shouldDisplay demoBase False demoActive) = Inr False"
proof -
  have absent: "child demoCollapsed = None" by (simp add: demoCollapsed_eq)
  have coll: "isParentCollapsed demoCollapsed"
    by (simp add: demoCollapsed_eq isParentCollapsed_def)
  have created: "fst (createChild demoBase demoLink) = Inr ()"
    by (simp add: demoLink_eq createChild_def demoBase_def alloc_def demoHeap_def)
  from shouldDisplay_returns_display [of demoBase True demoCollapsed True]
    shouldDisplay_returns_display [of demoBase True demoLink True]
    shouldDisplay_returns_display [of demoBase False demoActive False]
    absent coll created
  show ?thesis by simp
qed

section \<open>Path delegation\<close>

text \<open>
  Claim C8. \<open>resolvePath\<close> returns the result of the base class when that is a node
  (truthy). When the base finds nothing, a child exists and the first segment is
  \<open>:child\<close>, it returns what the child's \<open>resolvePath\<close> finds for the remaining
  segments. When the base finds nothing and there is no child, or the list is empty or
  starts with another segment, it returns \<open>undefined\<close>.
\<close>

theorem resolvePath_cases:
  "(truthy (super_resolvePath B (world s) path) \<longrightarrow>
      resolvePath B path s = super_resolvePath B (world s) path)
   \<and> (\<not> truthy (super_resolvePath B (world s) ('':child'' # rest)) \<and> child s = Some c \<longrightarrow>
      resolvePath B ('':child'' # rest) s = fld_resolvePath B (world s) c rest)
   \<and> (\<not> truthy (super_resolvePath B (world s) path)
        \<and> (child s = None \<or> path = [] \<or> hd path \<noteq> '':child'') \<longrightarrow>
      resolvePath B path s = JUndefined)"
  by (cases path)
    (auto simp: resolvePath_def Let_def index_def splice_1_Cons split: option.splits)

theorem resolvePath_cases_witness:
  "child demoActive = Some 5 \<and> child demoLink = None
   \<and> truthy (super_resolvePath demoBase (world demoActive) [''..''])
   \<and> \<not> truthy (super_resolvePath demoBase (world demoActive) ['':child'', ''foo''])
   \<and> resolvePath demoBase [''..''] demoActive = JRef 0
   \<and> resolvePath demoBase ['':child'', ''foo''] demoActive = JRef 1
   \<and> resolvePath demoBase ['':child'', ''foo''] demoLink = JUndefined"
proof -
  have present: "child demoActive = Some 5" by (simp add: demoActive_eq)
  have absent: "child demoLink = None" by (simp add: demoLink_eq)
  have base: "truthy (super_resolvePath demoBase (world demoActive) [''..''])"
    "super_resolvePath demoBase (world demoActive) [''..''] = JRef 0"
    "\<not> truthy (super_resolvePath demoBase (world demoActive) ['':child'', ''foo''])"
    "\<not> truthy (super_resolvePath demoBase (world demoLink) ['':child'', ''foo''])"
    by (simp_all add: demoBase_def)
  have sub: "fld_resolvePath demoBase (world demoActive) 5 [''foo''] = JRef 1"
    by (simp add: demoBase_def)
  from resolvePath_cases [of demoBase demoActive "[''..'']" "[''foo'']" 5]
    resolvePath_cases [of demoBase demoLink "['':child'', ''foo'']" "[''foo'']" 5]
    present absent base sub
  show ?thesis by simp
qed

section \<open>Validation\<close>

text \<open>
  Claim C6. For every \<open>errorCollection\<close>, \<open>revalidate\<close> returns the validation object
  of the base class and never throws. Its property \<open>child\<close> is the child's own
  \<open>revalidate\<close> result when a child exists and a new object \<open>{valid: true}\<close> when none
  exists; its property \<open>childrenValid\<close> is the \<open>childrenValid\<close> of that sub-result when
  the sub-result has such a property of its own, and its \<open>valid\<close> otherwise. Without
  child \<open>childrenValid\<close> is true; with a sub-result reporting \<open>childrenValid = false\<close>
  it is false.
\<close>

theorem revalidate_childrenValid:
  assumes "super_revalidate B (world s) ec = (validation, h1)"
    and "(case child s of
            Some c \<Rightarrow> fld_revalidate B h1 c ec
          | None \<Rightarrow> alloc h1 [''valid'' \<mapsto> JBool True]) = (childResult, h2)"
  shows "fst (revalidate B ec s) = Inr (JRef validation)
    \<and> getProp (world (snd (revalidate B ec s))) (JRef validation) ''child''
        = Inr (JRef childResult)
    \<and> getProp (world (snd (revalidate B ec s))) (JRef validation) ''childrenValid''
        = (if cells h2 childResult ''childrenValid'' \<noteq> None
           then getProp h2 (JRef childResult) ''childrenValid''
           else getProp h2 (JRef childResult) ''valid'')
    \<and> (child s = None \<longrightarrow>
          getProp h2 (JRef childResult) ''valid'' = Inr (JBool True)
          \<and> getProp (world (snd (revalidate B ec s))) (JRef validation) ''childrenValid''
              = Inr (JBool True))
    \<and> (cells h2 childResult ''childrenValid'' = Some (JBool False) \<longrightarrow>
          getProp (world (snd (revalidate B ec s))) (JRef validation) ''childrenValid''
            = Inr (JBool False))"
proof -
  have rv: "revalidate B ec s =
      (case setProp h2 (JRef validation) ''child'' (JRef childResult) of
         Inl e \<Rightarrow> (Inl e, s\<lparr>world := h2\<rparr>)
       | Inr h3 \<Rightarrow>
           (case childrenValid_of h3 (JRef validation) of
              Inl e \<Rightarrow> (Inl e, s\<lparr>world := h3\<rparr>)
            | Inr cv \<Rightarrow>
                (case setProp h3 (JRef validation) ''childrenValid'' cv of
                   Inl e \<Rightarrow> (Inl e, s\<lparr>world := h3\<rparr>)
                 | Inr h4 \<Rightarrow> (Inr (JRef validation), s\<lparr>world := h4\<rparr>))))"
    using assms by (simp add: revalidate_def)
  have returns: "fst (revalidate B ec s) = Inr (JRef validation)"
    by (simp add: rv childrenValid_of_def)
  have sub: "getProp (world (snd (revalidate B ec s))) (JRef validation) ''child''
      = Inr (JRef childResult)"
    by (simp add: rv childrenValid_of_def)
  have flag: "getProp (world (snd (revalidate B ec s))) (JRef validation) ''childrenValid''
      = (if cells h2 childResult ''childrenValid'' \<noteq> None
         then getProp h2 (JRef childResult) ''childrenValid''
         else getProp h2 (JRef childResult) ''valid'')"
    by (auto simp: rv childrenValid_of_def)
  have absent: "cells h2 childResult = [''valid'' \<mapsto> JBool True]" if "child s = None"
    using assms(2) that by (auto simp: alloc_def)
  have absent_valid: "getProp h2 (JRef childResult) ''valid'' = Inr (JBool True)"
    and absent_flag: "cells h2 childResult ''childrenValid'' = None" if "child s = None"
    using absent [OF that] by simp_all
  have reported: "getProp h2 (JRef childResult) ''childrenValid'' = Inr (JBool False)"
    if "cells h2 childResult ''childrenValid'' = Some (JBool False)"
    using that by simp
  from returns sub flag absent_valid absent_flag reported show ?thesis
    by simp
qed

theorem revalidate_childrenValid_witness:
  "child demoLink = None
   \<and> fst (revalidate demoBase JUndefined demoLink) = Inr (JRef 5)
   \<and> getProp (world (snd (revalidate demoBase JUndefined demoLink))) (JRef 5) ''childrenValid''
       = Inr (JBool True)
   \<and> child demoActive = Some 5
   \<and> fst (revalidate demoBase JUndefined demoActive) = Inr (JRef 6)
   \<and> getProp (world (snd (revalidate demoBase JUndefined demoActive))) (JRef 6) ''child''
       = Inr (JRef 7)
   \<and> getProp (world (snd (revalidate demoBase JUndefined demoActive))) (JRef 6) ''childrenValid''
       = Inr (JBool False)"
proof -
  have absent: "child demoLink = None" by (simp add: demoLink_eq)
  have present: "child demoActive = Some 5" by (simp add: demoActive_eq)
  have sup1: "super_revalidate demoBase (world demoLink) JUndefined =
      (5, snd (super_revalidate demoBase (world demoLink) JUndefined))"
    by (simp add: demoBase_def demoLink_eq alloc_def demoHeap_def)
  have sub1: "(case child demoLink of
        Some c \<Rightarrow> fld_revalidate demoBase
                    (snd (super_revalidate demoBase (world demoLink) JUndefined)) c JUndefined
      | None \<Rightarrow> alloc (snd (super_revalidate demoBase (world demoLink) JUndefined))
                   [''valid'' \<mapsto> JBool True])
      = (6, snd (alloc (snd (super_revalidate demoBase (world demoLink) JUndefined))
                   [''valid'' \<mapsto> JBool True]))"
    by (simp add: absent demoBase_def demoLink_eq alloc_def demoHeap_def)
  have sup2: "super_revalidate demoBase (world demoActive) JUndefined =
      (6, snd (super_revalidate demoBase (world demoActive) JUndefined))"
    by (simp add: demoBase_def demoActive_eq alloc_def demoHeap_def)
  have sub2: "(case child demoActive of
        Some c \<Rightarrow> fld_revalidate demoBase
                    (snd (super_revalidate demoBase (world demoActive) JUndefined)) c JUndefined
      | None \<Rightarrow> alloc (snd (super_revalidate demoBase (world demoActive) JUndefined))
                   [''valid'' \<mapsto> JBool True])
      = (7, snd (fld_revalidate demoBase
                   (snd (super_revalidate demoBase (world demoActive) JUndefined)) 5 JUndefined))"
    by (simp add: present demoBase_def demoActive_eq alloc_def demoHeap_def)
  have reported: "cells (snd (fld_revalidate demoBase
        (snd (super_revalidate demoBase (world demoActive) JUndefined)) 5 JUndefined)) 7
        ''childrenValid'' = Some (JBool False)"
    by (simp add: demoBase_def demoActive_eq alloc_def demoHeap_def)
  from revalidate_childrenValid [OF sup1 sub1] revalidate_childrenValid [OF sup2 sub2]
    absent present reported
  show ?thesis by simp
qed

end
